theory Spec2Isabelle
  imports Main
begin

section \<open>Strings as the handlers use them\<close>

text \<open>
  The protocol manager (\<^verbatim>\<open>src/main/services/protocolmanager/index.ts\<close>) works on
  JavaScript strings.  They are modelled as \<^typ>\<open>string\<close> (lists of characters); a
  value that may be \<^verbatim>\<open>undefined\<close> is a \<^typ>\<open>string option\<close>.
\<close>

text \<open>\<^verbatim>\<open>s.startsWith(p)\<close>.\<close>

definition startsWith :: "string \<Rightarrow> string \<Rightarrow> bool" where
  "startsWith s p = (take (length p) s = p)"

text \<open>\<^verbatim>\<open>s.split(c)\<close> for a separator of one character: the pieces between the
  occurrences of \<open>c\<close>, empty pieces included; there is always at least one piece.\<close>

fun splitOn :: "char \<Rightarrow> string \<Rightarrow> string list" where
  "splitOn c [] = [[]]"
| "splitOn c (x # xs) =
     (if x = c then [] # splitOn c xs
      else (case splitOn c xs of [] \<Rightarrow> [[x]] | y # ys \<Rightarrow> (x # y) # ys))"

text \<open>\<^verbatim>\<open>s.split(sep)\<close> for a separator of one or more characters, scanning from the
  left; \<open>cur\<close> holds the piece being read, reversed.\<close>

fun splitScan :: "string \<Rightarrow> string \<Rightarrow> string \<Rightarrow> string list" where
  "splitScan sep cur [] = [rev cur]"
| "splitScan sep cur (x # xs) =
     (if take (length sep) (x # xs) = sep
      then rev cur # splitScan sep [] (drop (length sep - 1) xs)
      else splitScan sep (x # cur) xs)"

definition split :: "string \<Rightarrow> string \<Rightarrow> string list" where
  "split s sep = splitScan sep [] s"

text \<open>\<^verbatim>\<open>xs[i]\<close> of a JavaScript array: \<^verbatim>\<open>undefined\<close> out of range.\<close>

definition at :: "'a list \<Rightarrow> nat \<Rightarrow> 'a option" where
  "at xs i = (if i < length xs then Some (xs ! i) else None)"

section \<open>The POSIX functions of \<^verbatim>\<open>node:path\<close>\<close>

text \<open>
  \<^verbatim>\<open>isSafePath\<close> and the router call \<^verbatim>\<open>path.resolve\<close>, \<^verbatim>\<open>path.relative\<close> and
  \<^verbatim>\<open>path.isAbsolute\<close> of the Node.js standard library.  They are modelled here in
  their POSIX variant (\<^verbatim>\<open>path.posix\<close>, which is \<^verbatim>\<open>node:path\<close> on Linux and macOS), on
  the segments between \<^verbatim>\<open>/\<close>.  The working directory \<^verbatim>\<open>process.cwd()\<close> is the parameter
  \<open>cwd\<close>.  An argument that is not a string makes these functions throw a
  \<^verbatim>\<open>TypeError\<close> (\<^verbatim>\<open>ERR_INVALID_ARG_TYPE\<close>): that is the only error of this model.
\<close>

datatype error = TypeError

definition isAbsolute :: "string \<Rightarrow> bool" where
  "isAbsolute path = (case path of [] \<Rightarrow> False | c # _ \<Rightarrow> c = CHR ''/'')"

fun joinSegs :: "string list \<Rightarrow> string" where
  "joinSegs [] = []"
| "joinSegs [s] = s"
| "joinSegs (s # t # ss) = s @ ''/'' @ joinSegs (t # ss)"

text \<open>
  \<^verbatim>\<open>normalizeString(path, allowAboveRoot, '/', isPosixPathSeparator)\<close>: empty segments
  and \<^verbatim>\<open>.\<close> are skipped; \<^verbatim>\<open>..\<close> removes the last segment kept so far unless there is
  none or it is \<^verbatim>\<open>..\<close> itself, in which case \<^verbatim>\<open>..\<close> is kept when \<open>allowAboveRoot\<close>
  and skipped otherwise; any other segment is kept.  \<open>res\<close> is the result so far.
\<close>

fun normalizeSegs :: "bool \<Rightarrow> string list \<Rightarrow> string list \<Rightarrow> string list" where
  "normalizeSegs allowAboveRoot res [] = res"
| "normalizeSegs allowAboveRoot res (s # ss) =
     (if s = [] \<or> s = ''.'' then normalizeSegs allowAboveRoot res ss
      else if s = ''..'' then
        (if res \<noteq> [] \<and> last res \<noteq> ''..''
         then normalizeSegs allowAboveRoot (butlast res) ss
         else if allowAboveRoot then normalizeSegs allowAboveRoot (res @ [''..'']) ss
         else normalizeSegs allowAboveRoot res ss)
      else normalizeSegs allowAboveRoot (res @ [s]) ss)"

definition normalizeString :: "string \<Rightarrow> bool \<Rightarrow> string" where
  "normalizeString path allowAboveRoot =
     joinSegs (normalizeSegs allowAboveRoot [] (splitOn CHR ''/'' path))"

text \<open>
  The loop of \<^verbatim>\<open>path.resolve(...args)\<close>, from the last argument to the first, until
  an absolute one has been prepended.  The arguments come reversed; the result is
  \<open>(resolvedPath, resolvedAbsolute)\<close>.  Each argument the loop reaches goes through
  \<^verbatim>\<open>validateString\<close> first.
\<close>

fun resolveLoop :: "string option list \<Rightarrow> string \<Rightarrow> error + string \<times> bool" where
  "resolveLoop [] resolvedPath = Inr (resolvedPath, False)"
| "resolveLoop (None # args) resolvedPath = Inl TypeError"
| "resolveLoop (Some path # args) resolvedPath =
     (if path = [] then resolveLoop args resolvedPath
      else if isAbsolute path then Inr (path @ ''/'' @ resolvedPath, True)
      else resolveLoop args (path @ ''/'' @ resolvedPath))"

definition resolve :: "string \<Rightarrow> string option list \<Rightarrow> error + string" where
  "resolve cwd args =
     (case resolveLoop (rev args) [] of
        Inl e \<Rightarrow> Inl e
      | Inr (resolvedPath, resolvedAbsolute) \<Rightarrow>
          (if resolvedAbsolute then Inr (''/'' @ normalizeString resolvedPath False)
           else if isAbsolute cwd
             then Inr (''/'' @ normalizeString (cwd @ ''/'' @ resolvedPath) False)
           else (case normalizeString (cwd @ ''/'' @ resolvedPath) True of
                   [] \<Rightarrow> Inr ''.''
                 | c # cs \<Rightarrow> Inr (c # cs))))"

text \<open>\<^verbatim>\<open>path.resolve\<close> on arguments that are all strings; then \<^verbatim>\<open>validateString\<close>
  never fails (lemma \<open>resolve_strings\<close> below).\<close>

definition posixResolve :: "string \<Rightarrow> string list \<Rightarrow> string" where
  "posixResolve cwd paths =
     (case resolve cwd (map Some paths) of Inr p \<Rightarrow> p | Inl e \<Rightarrow> [])"

text \<open>
  \<^verbatim>\<open>path.relative(from, to)\<close>: both arguments are validated and resolved; the common
  leading segments are dropped; the result is one \<^verbatim>\<open>..\<close> for each segment left of
  \<open>from\<close>, followed by the segments left of \<open>to\<close>.  The library walks the two resolved
  strings character by character and remembers the last common separator; on resolved
  paths that are absolute, which is what \<^verbatim>\<open>path.resolve\<close> returns whenever the working
  directory is absolute, that is the comparison of their segments written here.
\<close>

definition pathSegs :: "string \<Rightarrow> string list" where
  "pathSegs p = filter (\<lambda>s. s \<noteq> []) (splitOn CHR ''/'' p)"

fun dropCommon :: "string list \<Rightarrow> string list \<Rightarrow> string list \<times> string list" where
  "dropCommon (x # xs) (y # ys) = (if x = y then dropCommon xs ys else (x # xs, y # ys))"
| "dropCommon xs ys = (xs, ys)"

definition relative :: "string \<Rightarrow> string option \<Rightarrow> string option \<Rightarrow> error + string" where
  "relative cwd from to =
     (case from of
        None \<Rightarrow> Inl TypeError
      | Some f \<Rightarrow>
          (case to of
             None \<Rightarrow> Inl TypeError
           | Some t \<Rightarrow>
               if f = t then Inr []
               else
                 let f' = posixResolve cwd [f]; t' = posixResolve cwd [t] in
                 if f' = t' then Inr []
                 else (case dropCommon (pathSegs f') (pathSegs t') of
                         (fr, tr) \<Rightarrow> Inr (joinSegs (map (\<lambda>_. ''..'') fr @ tr)))))"

section \<open>The path sandbox guard\<close>

text \<open>
  \<^verbatim>\<open>isSafePath(rootPath, requestedPath)\<close>, lines 139 to 144.  The result of the
  \<^verbatim>\<open>&&\<close> chain is read for its truth value only (the router negates it), so it is a
  \<^typ>\<open>bool\<close>: the relative path is not the empty string, does not start with
  \<^verbatim>\<open>..\<close> and is not absolute.  The router passes \<^verbatim>\<open>undefined\<close> as \<open>rootPath\<close> when no
  root was chosen, hence the \<^typ>\<open>string option\<close>.
\<close>

definition isSafePath :: "string \<Rightarrow> string option \<Rightarrow> string \<Rightarrow> error + bool" where
  "isSafePath cwd rootPath requestedPath =
     (case resolve cwd [rootPath, Some requestedPath] of
        Inl e \<Rightarrow> Inl e
      | Inr pathToServe \<Rightarrow>
          (case relative cwd rootPath (Some pathToServe) of
             Inl e \<Rightarrow> Inl e
           | Inr relativePath \<Rightarrow>
               Inr (relativePath \<noteq> [] \<and> \<not> startsWith relativePath ''..''
                    \<and> \<not> isAbsolute relativePath)))"

section \<open>The asset resolver and the local resource router\<close>

text \<open>
  What the router reads of its process: \<^verbatim>\<open>process.resourcesPath\<close> and the working
  directory that \<^verbatim>\<open>path.resolve\<close> falls back to.
\<close>

record process =
  resourcesPath :: string
  cwd :: string

text \<open>The \<^verbatim>\<open>switch (host)\<close> of lines 89 to 110; no case matches an unknown host and
  \<open>rootPath\<close> stays \<^verbatim>\<open>undefined\<close>.\<close>

definition hostRoot :: "process \<Rightarrow> string \<Rightarrow> string option" where
  "hostRoot p host =
     (if host = ''updater''
        then Some (posixResolve (cwd p) [resourcesPath p, ''app.asar/.vite/renderer/windows/updater''])
      else if host = ''main''
        then Some (posixResolve (cwd p) [resourcesPath p, ''app.asar/.vite/renderer/windows/main''])
      else if host = ''titlebar''
        then Some (posixResolve (cwd p) [resourcesPath p, ''app.asar/.vite/renderer/windows/titlebar''])
      else if host = ''settings''
        then Some (posixResolve (cwd p) [resourcesPath p, ''app.asar/.vite/renderer/windows/settings''])
      else None)"

definition assetsRoot :: "process \<Rightarrow> string" where
  "assetsRoot p = posixResolve (cwd p) [resourcesPath p, ''app.asar/.vite/renderer/assets'']"

text \<open>
  The regular expressions.  \<open>isSep\<close> is the class \<^verbatim>\<open>[/\\]\<close>.  \<open>stripSeps\<close> is
  \<^verbatim>\<open>.replace(/^[/\\]+/, "")\<close>.  For \<^verbatim>\<open>/^[/\\]+(assets[/\\]+)+/\<close>, \<open>assetsGroup\<close> is one
  round of the group (the word \<^verbatim>\<open>assets\<close>, then one or more separators, all of them
  taken), \<open>assetsGroups\<close> takes every further round that matches, and
  \<open>assetsRegex s\<close> is the rest of \<open>s\<close> after the match, or \<open>None\<close> when
  \<^verbatim>\<open>assetsRegex.test(s)\<close> is false.
\<close>

definition isSep :: "char \<Rightarrow> bool" where
  "isSep c = (c = CHR ''/'' \<or> c = CHR 0x5C)"

definition stripSeps :: "string \<Rightarrow> string" where
  "stripSeps s = dropWhile isSep s"

definition assetsGroup :: "string \<Rightarrow> string option" where
  "assetsGroup s =
     (if take 6 s = ''assets'' then
        (case drop 6 s of
           [] \<Rightarrow> None
         | c # cs \<Rightarrow> if isSep c then Some (dropWhile isSep cs) else None)
      else None)"

function assetsGroups :: "string \<Rightarrow> string" where
  "assetsGroups s = (case assetsGroup s of None \<Rightarrow> s | Some r \<Rightarrow> assetsGroups r)"
  by pat_completeness auto
termination
proof (relation "measure length")
  show "wf (measure length)" by simp
next
  fix s r :: string
  assume "assetsGroup s = Some r"
  then obtain c cs where d: "drop 6 s = c # cs" and r: "r = dropWhile isSep cs"
    by (auto simp: assetsGroup_def split: if_splits list.splits)
  have "length r \<le> length cs" by (simp add: r length_dropWhile_le)
  moreover have "length (drop 6 s) = Suc (length cs)" by (simp add: d)
  ultimately have "length r < length s" by simp
  then show "(r, s) \<in> measure length" by simp
qed

definition assetsRegex :: "string \<Rightarrow> string option" where
  "assetsRegex s =
     (case s of
        [] \<Rightarrow> None
      | c # cs \<Rightarrow>
          if isSep c then
            (case assetsGroup (dropWhile isSep cs) of
               None \<Rightarrow> None
             | Some r \<Rightarrow> Some (assetsGroups r))
          else None)"

text \<open>
  Lines 88 to 123: the root for the host, the index document for the pathname
  \<^verbatim>\<open>/\<close>, the rewrite of the reserved assets prefix, and the strip of the leading
  separators.  \<open>resolveDesired\<close> is lines 117 to 123.
\<close>

definition resolveDesired :: "process \<Rightarrow> string option \<Rightarrow> string \<Rightarrow> string option \<times> string" where
  "resolveDesired p rootPath desiredPath =
     (case assetsRegex desiredPath of
        Some rest \<Rightarrow> (Some (assetsRoot p), stripSeps rest)
      | None \<Rightarrow> (rootPath, stripSeps desiredPath))"

definition resolveRequest :: "process \<Rightarrow> string \<Rightarrow> string \<Rightarrow> string option \<times> string" where
  "resolveRequest p host pathname =
     resolveDesired p (hostRoot p host) (if pathname = ''/'' then ''/index.html'' else pathname)"

text \<open>
  What the handler does with a request: it returns a response of its own, or it
  returns \<^verbatim>\<open>net.fetch(pathToFileURL(file).toString())\<close> for a resolved \<open>file\<close>; an
  exception thrown on the way is \<open>Inl\<close>.
\<close>

record response =
  body :: string
  status :: nat
  headers :: "(string \<times> string) list"

datatype outcome = Response response | NetFetch string

definition handleYTMDAppProtocol :: "process \<Rightarrow> string \<Rightarrow> string \<Rightarrow> error + outcome" where
  "handleYTMDAppProtocol p host pathname =
     (case resolveRequest p host pathname of
        (rootPath, desiredPath) \<Rightarrow>
          (case isSafePath (cwd p) rootPath desiredPath of
             Inl e \<Rightarrow> Inl e
           | Inr False \<Rightarrow>
               Inr (Response \<lparr>body = ''Policy Violation'', status = 403,
                               headers = [(''Content-Type'', ''text/html'')]\<rparr>)
           | Inr True \<Rightarrow>
               (case resolve (cwd p) [rootPath, Some desiredPath] of
                  Inl e \<Rightarrow> Inl e
                | Inr file \<Rightarrow> Inr (NetFetch file))))"

section \<open>The deep-link command dispatcher\<close>

text \<open>
  The view manager as the dispatcher sees it: \<^verbatim>\<open>isInitialized()\<close>, and whether the
  promise of \<^verbatim>\<open>ready()\<close> is ever fulfilled.  The message is the call
  \<^verbatim>\<open>webContents.send(channel, command, {watchEndpoint: {videoId, playlistId}})\<close>.
\<close>

record viewManager =
  isInitialized :: bool
  readyResolves :: bool

record navigationCommand =
  channel :: string
  command :: string
  videoId :: string
  playlistId :: "string option"

text \<open>
  \<^verbatim>\<open>handleYTMDProtocol(url)\<close>, lines 56 to 85.  The result is the list of messages
  sent once the handler has completed, or \<open>None\<close> when it stays suspended in
  \<^verbatim>\<open>await ytmViewManager.ready()\<close> for ever.
\<close>

definition handleYTMDProtocol :: "viewManager \<Rightarrow> string \<Rightarrow> navigationCommand list option" where
  "handleYTMDProtocol ytmViewManager url =
     (case at (split url ''://'') 1 of
        None \<Rightarrow> Some []
      | Some urlPaths \<Rightarrow>
          if urlPaths = [] then Some []
          else
            let paths = split urlPaths ''/'' in
            if length paths > 0 then
              (if paths ! 0 = ''play'' then
                 (if length paths \<ge> 2 then
                    (if isInitialized ytmViewManager then
                       (if readyResolves ytmViewManager
                        then Some [\<lparr>channel = ''remoteControl:execute'', command = ''navigate'',
                                    videoId = paths ! 1, playlistId = at paths 2\<rparr>]
                        else None)
                     else Some [])
                  else Some [])
               else Some [])
            else Some [])"

section \<open>Notions used in the proofs\<close>

text \<open>
  A segment is normal when \<^verbatim>\<open>normalizeString\<close> keeps it as it is.  \<open>rootSegs path\<close> are
  the segments of an absolute path after normalisation.  \<open>resolvedSegs root candidate\<close>
  are the normalised segments of the candidate joined to an absolute root: those of the
  candidate alone when it is absolute, and otherwise those of the root followed by the
  candidate's, where each \<^verbatim>\<open>..\<close> removes the segment before it.  \<open>relOf fs ts\<close> is the
  relative path from the segments \<open>fs\<close> to the segments \<open>ts\<close>, and \<open>safeRel\<close> is the test
  that \<^verbatim>\<open>isSafePath\<close> applies to the relative path.
\<close>

definition normalSeg :: "string \<Rightarrow> bool" where
  "normalSeg s = (s \<noteq> [] \<and> s \<noteq> ''.'' \<and> s \<noteq> ''..'' \<and> CHR ''/'' \<notin> set s)"

definition rootSegs :: "string \<Rightarrow> string list" where
  "rootSegs path = normalizeSegs False [] (splitOn CHR ''/'' path)"

definition resolvedSegs :: "string \<Rightarrow> string \<Rightarrow> string list" where
  "resolvedSegs root candidate =
     (if isAbsolute candidate then rootSegs candidate
      else normalizeSegs False (rootSegs root) (splitOn CHR ''/'' candidate))"

definition relOf :: "string list \<Rightarrow> string list \<Rightarrow> string" where
  "relOf fs ts = (case dropCommon fs ts of (fr, tr) \<Rightarrow> joinSegs (map (\<lambda>_. ''..'') fr @ tr))"

definition safeRel :: "string \<Rightarrow> bool" where
  "safeRel rel = (rel \<noteq> [] \<and> \<not> startsWith rel ''..'' \<and> \<not> isAbsolute rel)"

text \<open>
  The deep links that name a video, in the words of the specification: the URI has a
  non-empty remainder after the scheme separator, the first segment of the remainder is
  the verb \<^verbatim>\<open>play\<close>, and there are at least two segments.
\<close>

definition playLink :: "string \<Rightarrow> bool" where
  "playLink url =
     (case at (split url ''://'') 1 of
        None \<Rightarrow> False
      | Some remainder \<Rightarrow>
          remainder \<noteq> [] \<and> at (split remainder ''/'') 0 = Some ''play''
          \<and> 2 \<le> length (split remainder ''/''))"

section \<open>Splitting, joining and normalising\<close>

lemma splitOn_not_Nil: "splitOn c s \<noteq> []"
  by (induction s) (auto split: list.splits)

lemma splitOn_append_sep: "splitOn c (a @ c # b) = splitOn c a @ splitOn c b"
proof (induction a)
  case Nil
  show ?case by simp
next
  case (Cons x a)
  obtain y ys where "splitOn c a = y # ys"
    using splitOn_not_Nil [of c a] by (cases "splitOn c a") auto
  with Cons show ?case by simp
qed

lemma splitOn_no_sep: "c \<notin> set s \<Longrightarrow> splitOn c s = [s]"
  by (induction s) auto

lemma splitOn_free: "t \<in> set (splitOn c s) \<Longrightarrow> c \<notin> set t"
proof (induction s arbitrary: t)
  case Nil
  then show ?case by simp
next
  case (Cons x s)
  then show ?case
    by (cases "splitOn c s") (auto split: if_splits)
qed

lemma splitOn_joinSegs:
  "xs \<noteq> [] \<Longrightarrow> \<forall>s\<in>set xs. CHR ''/'' \<notin> set s \<Longrightarrow> splitOn CHR ''/'' (joinSegs xs) = xs"
proof (induction xs rule: joinSegs.induct)
  case 1
  then show ?case by simp
next
  case (2 s)
  then show ?case by (simp add: splitOn_no_sep)
next
  case (3 s t ss)
  then show ?case by (simp add: splitOn_append_sep splitOn_no_sep)
qed

lemma joinSegs_Cons: "joinSegs (x # zs) = (if zs = [] then x else x @ ''/'' @ joinSegs zs)"
  by (cases zs) auto

lemma joinSegs_splitOn: "joinSegs (splitOn CHR ''/'' s) = s"
proof (induction s)
  case Nil
  show ?case by simp
next
  case (Cons x s)
  obtain y ys where y: "splitOn CHR ''/'' s = y # ys"
    using splitOn_not_Nil [of "CHR ''/''" s] by (cases "splitOn CHR ''/'' s") auto
  with Cons show ?case by (auto simp: joinSegs_Cons)
qed

lemma joinSegs_empty: "\<forall>s\<in>set fs. normalSeg s \<Longrightarrow> joinSegs fs = [] \<longleftrightarrow> fs = []"
  by (cases fs) (auto simp: joinSegs_Cons normalSeg_def)

lemma joinSegs_append:
  "xs \<noteq> [] \<Longrightarrow> ys \<noteq> [] \<Longrightarrow> joinSegs (xs @ ys) = joinSegs xs @ ''/'' @ joinSegs ys"
proof (induction xs rule: joinSegs.induct)
  case 1
  then show ?case by simp
next
  case (2 s)
  then show ?case by (cases ys) simp_all
next
  case (3 s t ss)
  then show ?case by simp
qed

lemma normalizeSegs_append:
  "normalizeSegs a res (xs @ ys) = normalizeSegs a (normalizeSegs a res xs) ys"
  by (induction xs arbitrary: res) auto

lemma normalizeSegs_normal:
  "\<forall>s\<in>set res. normalSeg s \<Longrightarrow> \<forall>s\<in>set xs. CHR ''/'' \<notin> set s \<Longrightarrow>
   \<forall>s\<in>set (normalizeSegs False res xs). normalSeg s"
proof (induction xs arbitrary: res)
  case Nil
  then show ?case by simp
next
  case (Cons x xs)
  have xs: "\<forall>s\<in>set xs. CHR ''/'' \<notin> set s"
    using Cons.prems(2) by simp
  consider (skip) "x = [] \<or> x = ''.''" | (up) "x = ''..''"
    | (keep) "x \<noteq> []" "x \<noteq> ''.''" "x \<noteq> ''..''"
    by blast
  then show ?case
  proof cases
    case skip
    then show ?thesis
      using Cons.IH [OF Cons.prems(1) xs] by auto
  next
    case up
    have b: "\<forall>s\<in>set (butlast res). normalSeg s"
      using Cons.prems(1) by (auto dest: in_set_butlastD)
    show ?thesis
      using Cons.IH [OF Cons.prems(1) xs] Cons.IH [OF b xs] up by simp
  next
    case keep
    have "normalSeg x"
      using keep Cons.prems(2) by (simp add: normalSeg_def)
    then have e: "\<forall>s\<in>set (res @ [x]). normalSeg s"
      using Cons.prems(1) by simp
    show ?thesis
      using Cons.IH [OF e xs] keep by simp
  qed
qed

lemma normalizeSegs_id:
  "\<forall>s\<in>set xs. normalSeg s \<Longrightarrow> normalizeSegs False res xs = res @ xs"
  by (induction xs arbitrary: res) (auto simp: normalSeg_def)

lemma rootSegs_normal: "\<forall>s\<in>set (rootSegs path). normalSeg s"
  unfolding rootSegs_def
  by (rule normalizeSegs_normal) (auto dest: splitOn_free)

lemma rootSegs_render:
  assumes "\<forall>s\<in>set xs. normalSeg s"
  shows "rootSegs (CHR ''/'' # joinSegs xs) = xs"
proof (cases xs)
  case Nil
  then show ?thesis by (simp add: rootSegs_def)
next
  case (Cons y ys)
  have "splitOn CHR ''/'' (joinSegs xs) = xs"
    using assms Cons by (intro splitOn_joinSegs) (auto simp: normalSeg_def)
  then show ?thesis
    using assms by (simp add: rootSegs_def normalizeSegs_id)
qed

lemma pathSegs_render:
  assumes "\<forall>s\<in>set xs. normalSeg s"
  shows "pathSegs (CHR ''/'' # joinSegs xs) = xs"
proof (cases xs)
  case Nil
  then show ?thesis by (simp add: pathSegs_def)
next
  case (Cons y ys)
  have "splitOn CHR ''/'' (joinSegs xs) = xs"
    using assms Cons by (intro splitOn_joinSegs) (auto simp: normalSeg_def)
  moreover have "filter (\<lambda>s. s \<noteq> []) xs = xs"
    using assms by (auto simp: normalSeg_def filter_id_conv)
  ultimately show ?thesis
    by (simp add: pathSegs_def)
qed

lemma normal_segments_relative:
  assumes "\<forall>s\<in>set (splitOn CHR ''/'' c). normalSeg s"
  shows "c \<noteq> []" and "\<not> isAbsolute c"
proof -
  show "c \<noteq> []"
  proof
    assume "c = []"
    then have "normalSeg []" using assms by simp
    then show False by (simp add: normalSeg_def)
  qed
  show "\<not> isAbsolute c"
  proof
    assume "isAbsolute c"
    then obtain c' where "c = CHR ''/'' # c'"
      by (cases c) (simp_all add: isAbsolute_def)
    then have "normalSeg []" using assms by simp
    then show False by (simp add: normalSeg_def)
  qed
qed

section \<open>Resolving absolute paths\<close>

lemma resolveLoop_strings: "\<exists>r. resolveLoop (map Some ps) acc = Inr r"
  by (induction ps arbitrary: acc) auto

lemma resolve_strings: "resolve wd (map Some ps) = Inr (posixResolve wd ps)"
proof -
  obtain rp ra where "resolveLoop (rev (map Some ps)) [] = Inr (rp, ra)"
    using resolveLoop_strings [of "rev ps" "[]"] by (auto simp: rev_map)
  then show ?thesis
    by (auto simp: posixResolve_def resolve_def split: list.splits)
qed

lemma resolve_abs1:
  assumes "isAbsolute R"
  shows "resolve wd [Some R] = Inr (CHR ''/'' # joinSegs (rootSegs R))"
proof -
  have "splitOn CHR ''/'' (R @ ''/'') = splitOn CHR ''/'' R @ [[]]"
    using splitOn_append_sep [of "CHR ''/''" R "[]"] by simp
  then show ?thesis
    using assms
    by (auto simp: resolve_def normalizeString_def rootSegs_def normalizeSegs_append isAbsolute_def)
qed

lemma resolve_abs2:
  assumes "isAbsolute R"
  shows "resolve wd [Some R, Some c] =
           Inr (CHR ''/'' # joinSegs (if isAbsolute c then rootSegs c
                                   else normalizeSegs False (rootSegs R) (splitOn CHR ''/'' c)))"
proof -
  have s1: "splitOn CHR ''/'' (x @ ''/'') = splitOn CHR ''/'' x @ [[]]" for x
    using splitOn_append_sep [of "CHR ''/''" x "[]"] by simp
  have s2: "splitOn CHR ''/'' (R @ CHR ''/'' # c @ ''/'') = splitOn CHR ''/'' R @ splitOn CHR ''/'' c @ [[]]"
    using splitOn_append_sep [of "CHR ''/''" R "c @ ''/''"] s1 [of c] by simp
  show ?thesis
  proof (cases "c = []")
    case True
    then show ?thesis
      using assms s1 [of R]
      by (auto simp: resolve_def normalizeString_def rootSegs_def normalizeSegs_append isAbsolute_def)
  next
    case False
    then show ?thesis
      using assms s1 [of c] s2
      by (auto simp: resolve_def normalizeString_def rootSegs_def normalizeSegs_append isAbsolute_def)
  qed
qed

lemma posixResolve_abs1: "isAbsolute R \<Longrightarrow> posixResolve wd [R] = CHR ''/'' # joinSegs (rootSegs R)"
  using resolve_abs1 [of R wd] by (simp add: posixResolve_def)

lemma posixResolve_abs2:
  assumes "isAbsolute R" and "\<forall>s\<in>set (splitOn CHR ''/'' c). normalSeg s"
  shows "posixResolve wd [R, c] = CHR ''/'' # joinSegs (rootSegs R @ splitOn CHR ''/'' c)"
  using resolve_abs2 [OF assms(1), of wd c] normal_segments_relative(2) [OF assms(2)]
    normalizeSegs_id [OF assms(2), of "rootSegs R"]
  by (simp add: posixResolve_def)

lemma root_iff:
  assumes "isAbsolute R"
  shows "posixResolve wd [R] = ''/'' \<longleftrightarrow> rootSegs R = []"
  using joinSegs_empty [OF rootSegs_normal, of R] posixResolve_abs1 [OF assms, of wd] by simp

lemma etc_iff:
  assumes "isAbsolute R"
  shows "posixResolve wd [R] = ''/etc'' \<longleftrightarrow> rootSegs R = [''etc'']"
proof
  assume "posixResolve wd [R] = ''/etc''"
  then have "pathSegs (CHR ''/'' # joinSegs (rootSegs R)) = pathSegs ''/etc''"
    using posixResolve_abs1 [OF assms, of wd] by simp
  then show "rootSegs R = [''etc'']"
    using pathSegs_render [OF rootSegs_normal, of R] by (simp add: pathSegs_def)
next
  assume "rootSegs R = [''etc'']"
  then show "posixResolve wd [R] = ''/etc''"
    using posixResolve_abs1 [OF assms, of wd] by simp
qed

section \<open>Relative paths and the guard on absolute roots\<close>

lemma dropCommon_same: "dropCommon xs xs = ([], [])"
  by (induction xs) auto

lemma dropCommon_append: "dropCommon (p @ a) (p @ b) = dropCommon a b"
  by (induction p) auto

lemma relOf_Nil: "relOf [] ts = joinSegs ts"
  by (simp add: relOf_def)

lemma relOf_self: "relOf fs fs = []"
  by (simp add: relOf_def dropCommon_same)

lemma relOf_append: "relOf (p @ a) (p @ b) = relOf a b"
  by (simp add: relOf_def dropCommon_append)

lemma relOf_prefix: "relOf fs (fs @ ys) = joinSegs ys"
  using relOf_append [of fs "[]" ys] by (simp add: relOf_Nil)

lemma relative_abs:
  assumes "isAbsolute R" and "\<forall>s\<in>set ts. normalSeg s"
  shows "relative wd (Some R) (Some (CHR ''/'' # joinSegs ts)) = Inr (relOf (rootSegs R) ts)"
proof -
  let ?t = "CHR ''/'' # joinSegs ts"
  have abs: "isAbsolute ?t" by (simp add: isAbsolute_def)
  have f: "posixResolve wd [R] = CHR ''/'' # joinSegs (rootSegs R)"
    using assms(1) by (rule posixResolve_abs1)
  have t: "posixResolve wd [?t] = ?t"
    using posixResolve_abs1 [OF abs] rootSegs_render [OF assms(2)] by simp
  show ?thesis
  proof (cases "rootSegs R = ts")
    case True
    then show ?thesis
      by (simp add: relative_def relOf_def dropCommon_same f t)
  next
    case False
    have "R \<noteq> ?t"
      using False rootSegs_render [OF assms(2)] by auto
    moreover have "CHR ''/'' # joinSegs (rootSegs R) \<noteq> ?t"
    proof
      assume "CHR ''/'' # joinSegs (rootSegs R) = ?t"
      then have "pathSegs (CHR ''/'' # joinSegs (rootSegs R)) = pathSegs ?t" by simp
      then show False
        using False pathSegs_render [OF assms(2)] pathSegs_render [OF rootSegs_normal, of R]
        by simp
    qed
    ultimately show ?thesis
      using pathSegs_render [OF assms(2)] pathSegs_render [OF rootSegs_normal, of R]
      by (simp add: relative_def relOf_def f t split: prod.splits)
  qed
qed

lemma isSafePath_abs:
  assumes "isAbsolute R"
  shows "isSafePath wd (Some R) c =
           Inr (safeRel (relOf (rootSegs R)
                  (if isAbsolute c then rootSegs c
                   else normalizeSegs False (rootSegs R) (splitOn CHR ''/'' c))))"
proof -
  let ?ts = "if isAbsolute c then rootSegs c else normalizeSegs False (rootSegs R) (splitOn CHR ''/'' c)"
  have n: "\<forall>s\<in>set ?ts. normalSeg s"
    using rootSegs_normal [of c] normalizeSegs_normal [OF rootSegs_normal, of "splitOn CHR ''/'' c" R]
    by (auto dest: splitOn_free)
  show ?thesis
    using resolve_abs2 [OF assms, of wd c] relative_abs [OF assms n, of wd]
    by (simp add: isSafePath_def safeRel_def)
qed

lemma isSafePath_index:
  assumes "isAbsolute R"
  shows "isSafePath wd (Some R) ''index.html'' = Inr True"
  using isSafePath_abs [OF assms, of wd "''index.html''"]
  by (simp add: isAbsolute_def relOf_prefix safeRel_def startsWith_def)

lemma isSafePath_assets_app:
  assumes "isAbsolute R"
  shows "isSafePath wd (Some R) ''assets/app.js'' = Inr True"
  using isSafePath_abs [OF assms, of wd "''assets/app.js''"]
    relOf_prefix [of "rootSegs R" "[''assets'', ''app.js'']"]
  by (simp add: isAbsolute_def safeRel_def startsWith_def)

lemma isSafePath_empty:
  assumes "isAbsolute R"
  shows "isSafePath wd (Some R) [] = Inr False"
  using isSafePath_abs [OF assms, of wd "[]"]
  by (simp add: isAbsolute_def relOf_self safeRel_def)

lemma safe_secret:
  assumes n: "\<forall>s\<in>set fs. normalSeg s"
  shows "safeRel (relOf fs (normalizeSegs False fs [''..'', ''secret''])) \<longleftrightarrow> fs = []"
proof (cases fs rule: rev_cases)
  case Nil
  then show ?thesis
    by (simp add: relOf_Nil safeRel_def startsWith_def isAbsolute_def)
next
  case (snoc b l)
  then have l: "l \<noteq> ''..''" using n by (auto simp: normalSeg_def)
  have "relOf (b @ [l]) (b @ [''secret'']) = relOf [l] [''secret'']"
    by (rule relOf_append)
  then show ?thesis
    using snoc l by (simp add: relOf_def safeRel_def startsWith_def)
qed

lemma safe_under_etc:
  "safeRel (relOf fs [''etc'', ''passwd'']) \<longleftrightarrow> fs = [] \<or> fs = [''etc'']"
proof (cases fs)
  case Nil
  then show ?thesis
    by (simp add: relOf_Nil safeRel_def startsWith_def isAbsolute_def)
next
  case (Cons x xs)
  show ?thesis
  proof (cases xs)
    case Nil
    then show ?thesis
      using Cons by (simp add: relOf_def safeRel_def startsWith_def isAbsolute_def)
  next
    case (Cons y ys)
    then show ?thesis
      using \<open>fs = x # xs\<close>
      by (cases ys) (simp_all add: relOf_def safeRel_def startsWith_def joinSegs_Cons)
  qed
qed

lemma segs_up_up:
  assumes n: "\<forall>s\<in>set fs. normalSeg s"
  shows "safeRel (relOf fs (normalizeSegs False fs [''..'', ''..'', ''etc'', ''passwd'']))
           \<longleftrightarrow> fs = [] \<or> fs = [''etc'']"
proof (cases fs rule: rev_cases)
  case Nil
  then show ?thesis
    by (simp add: relOf_Nil safeRel_def startsWith_def isAbsolute_def)
next
  case (snoc b l2)
  then have l2: "l2 \<noteq> ''..''" using n by (auto simp: normalSeg_def)
  show ?thesis
  proof (cases b rule: rev_cases)
    case Nil
    then show ?thesis
      using snoc l2 safe_under_etc [of "[l2]"] by simp
  next
    case (snoc c l1)
    then have l1: "l1 \<noteq> ''..''" using n \<open>fs = b @ [l2]\<close> by (auto simp: normalSeg_def)
    have fs: "fs = (c @ [l1]) @ [l2]"
      using snoc \<open>fs = b @ [l2]\<close> by simp
    have "normalizeSegs False fs [''..'', ''..'', ''etc'', ''passwd''] = c @ [''etc'', ''passwd'']"
      unfolding fs using l1 l2 by (simp add: butlast_append)
    moreover have "relOf (c @ [l1, l2]) (c @ [''etc'', ''passwd'']) = relOf [l1, l2] [''etc'', ''passwd'']"
      by (rule relOf_append)
    ultimately show ?thesis
      using fs safe_under_etc [of "[l1, l2]"] by simp
  qed
qed

lemma served_under_root:
  assumes rp: "isAbsolute rp"
    and sub: "\<forall>s\<in>set (splitOn CHR ''/'' sub). normalSeg s"
    and c: "\<forall>s\<in>set (splitOn CHR ''/'' c). normalSeg s"
    and up: "\<not> startsWith c ''..''"
  shows "isAbsolute (posixResolve wd [rp, sub])"
    and "isSafePath wd (Some (posixResolve wd [rp, sub])) c = Inr True"
    and "posixResolve wd [posixResolve wd [rp, sub], c] = posixResolve wd [rp, sub] @ ''/'' @ c"
proof -
  let ?xs = "rootSegs rp @ splitOn CHR ''/'' sub"
  let ?root = "posixResolve wd [rp, sub]"
  have root: "?root = CHR ''/'' # joinSegs ?xs"
    using rp sub by (rule posixResolve_abs2)
  have n: "\<forall>s\<in>set ?xs. normalSeg s"
    using rootSegs_normal [of rp] sub by auto
  have ne: "?xs \<noteq> []"
    by (simp add: splitOn_not_Nil)
  show abs: "isAbsolute ?root"
    by (simp add: root isAbsolute_def)
  have segs: "rootSegs ?root = ?xs"
    unfolding root using n by (rule rootSegs_render)
  have s1: "isSafePath wd (Some ?root) c = Inr (safeRel (relOf ?xs (?xs @ splitOn CHR ''/'' c)))"
    using isSafePath_abs [OF abs, of wd c] normal_segments_relative(2) [OF c]
      normalizeSegs_id [OF c, of ?xs]
    by (simp only: segs if_False)
  have s2: "relOf ?xs (?xs @ splitOn CHR ''/'' c) = c"
    by (simp only: relOf_prefix joinSegs_splitOn)
  have s3: "safeRel c"
    using normal_segments_relative [OF c] up by (simp add: safeRel_def)
  show "isSafePath wd (Some ?root) c = Inr True"
    using s3 by (simp only: s1 s2)
  have "posixResolve wd [?root, c] = CHR ''/'' # joinSegs (?xs @ splitOn CHR ''/'' c)"
    using posixResolve_abs2 [OF abs c, of wd] by (simp only: segs)
  also have "\<dots> = (CHR ''/'' # joinSegs ?xs) @ ''/'' @ c"
    using joinSegs_append [OF ne splitOn_not_Nil, of "CHR ''/''" c]
    by (simp only: joinSegs_splitOn append_Cons)
  finally show "posixResolve wd [?root, c] = ?root @ ''/'' @ c"
    by (simp only: root)
qed

lemma resolvedSegs_normal: "\<forall>s\<in>set (resolvedSegs R c). normalSeg s"
  using rootSegs_normal [of c] normalizeSegs_normal [OF rootSegs_normal, of "splitOn CHR ''/'' c" R]
  by (auto simp: resolvedSegs_def dest: splitOn_free)

lemma startsWith_joinSegs:
  assumes "normalSeg y"
  shows "startsWith (joinSegs (y # ys)) ''..'' = startsWith y ''..''"
proof (cases ys)
  case Nil
  then show ?thesis by simp
next
  case (Cons z zs)
  obtain a as where y: "y = a # as"
    using assms by (cases y) (simp_all add: normalSeg_def)
  show ?thesis
  proof (cases as)
    case Nil
    then show ?thesis
      using y Cons by (simp add: startsWith_def)
  next
    case (Cons b bs)
    then show ?thesis
      using y \<open>ys = z # zs\<close> by (simp add: startsWith_def)
  qed
qed

lemma safeRel_joinSegs:
  assumes "normalSeg y"
  shows "safeRel (joinSegs (y # ys)) = (\<not> startsWith y ''..'')"
proof -
  obtain a as where y: "y = a # as" and a: "a \<noteq> CHR ''/''"
    using assms by (cases y) (auto simp: normalSeg_def)
  have "joinSegs (y # ys) \<noteq> []"
    using y by (simp add: joinSegs_Cons)
  moreover have "\<not> isAbsolute (joinSegs (y # ys))"
    using y a by (simp add: joinSegs_Cons isAbsolute_def)
  ultimately show ?thesis
    using startsWith_joinSegs [OF assms, of ys] by (simp add: safeRel_def)
qed

lemma safeRel_dotdot: "\<not> safeRel (joinSegs (''..'' # zs))"
  by (simp add: safeRel_def startsWith_def joinSegs_Cons)

lemma safeRel_relOf:
  "\<forall>s\<in>set ts. normalSeg s \<Longrightarrow>
   safeRel (relOf fs ts) \<longleftrightarrow> (\<exists>ys. ys \<noteq> [] \<and> ts = fs @ ys \<and> \<not> startsWith (hd ys) ''..'')"
proof (induction fs arbitrary: ts)
  case Nil
  show ?case
  proof (cases ts)
    case Nil
    then show ?thesis by (simp add: relOf_def safeRel_def)
  next
    case (Cons z zs)
    then have "normalSeg z" using Nil.prems by simp
    then show ?thesis
      using Cons safeRel_joinSegs [of z zs] by (simp add: relOf_def)
  qed
next
  case (Cons x xs)
  show ?case
  proof (cases ts)
    case Nil
    have "relOf (x # xs) [] = joinSegs (''..'' # map (\<lambda>_. ''..'') xs)"
      by (simp add: relOf_def)
    then show ?thesis
      using Nil safeRel_dotdot by simp
  next
    case (Cons y ys)
    show ?thesis
    proof (cases "x = y")
      case True
      have "relOf (x # xs) (y # ys) = relOf xs ys"
        using True by (simp add: relOf_def)
      moreover have "\<forall>s\<in>set ys. normalSeg s"
        using Cons.prems \<open>ts = y # ys\<close> by simp
      ultimately show ?thesis
        using Cons.IH [of ys] True \<open>ts = y # ys\<close> by simp
    next
      case False
      have "relOf (x # xs) (y # ys) = joinSegs (''..'' # (map (\<lambda>_. ''..'') xs @ y # ys))"
        using False by (simp add: relOf_def)
      then show ?thesis
        using False \<open>ts = y # ys\<close> safeRel_dotdot by simp
    qed
  qed
qed

section \<open>The router on a chosen root\<close>

lemma assetsGroups_None: "assetsGroup s = None \<Longrightarrow> assetsGroups s = s"
  by (subst assetsGroups.simps) simp

lemma assetsGroups_Some: "assetsGroup s = Some r \<Longrightarrow> assetsGroups s = assetsGroups r"
  by (subst assetsGroups.simps) simp

lemma assetsRegex_index: "assetsRegex ''/index.html'' = None"
  by (simp add: assetsRegex_def isSep_def assetsGroup_def)

lemma assetsRegex_x: "assetsRegex ''/assets/x.js'' = Some ''x.js''"
  by (simp add: assetsRegex_def isSep_def assetsGroup_def assetsGroups_None)

lemma assetsRegex_xx: "assetsRegex ''/assets/assets/x.js'' = Some ''x.js''"
proof -
  have "assetsGroup ''assets/x.js'' = Some ''x.js''"
    by (simp add: assetsGroup_def isSep_def)
  moreover have "assetsGroup ''x.js'' = None"
    by (simp add: assetsGroup_def)
  ultimately have "assetsGroups ''assets/x.js'' = ''x.js''"
    by (simp add: assetsGroups_Some assetsGroups_None)
  then show ?thesis
    by (simp add: assetsRegex_def isSep_def assetsGroup_def)
qed

lemma hostRoot_bogus: "hostRoot p ''bogus'' = None"
  by (simp add: hostRoot_def)

lemma isSafePath_undefined: "isSafePath wd None q = Inl TypeError"
  by (auto simp: isSafePath_def resolve_def relative_def split: sum.splits)

lemma isSafePath_defined: "\<exists>b. isSafePath wd (Some R) q = Inr b"
proof -
  have "resolve wd [Some R, Some q] = Inr (posixResolve wd [R, q])"
    using resolve_strings [of wd "[R, q]"] by simp
  then show ?thesis
    by (auto simp: isSafePath_def relative_def Let_def split: prod.splits)
qed

lemma handle_undefined_root:
  "resolveRequest p host pathname = (None, q) \<Longrightarrow> handleYTMDAppProtocol p host pathname = Inl TypeError"
  by (simp add: handleYTMDAppProtocol_def isSafePath_undefined)

lemma handle_defined_root:
  assumes "resolveRequest p host pathname = (Some R, q)"
  shows "handleYTMDAppProtocol p host pathname =
           (if isSafePath (cwd p) (Some R) q = Inr True
            then Inr (NetFetch (posixResolve (cwd p) [R, q]))
            else Inr (Response \<lparr>body = ''Policy Violation'', status = 403,
                               headers = [(''Content-Type'', ''text/html'')]\<rparr>))"
proof -
  obtain b where b: "isSafePath (cwd p) (Some R) q = Inr b"
    using isSafePath_defined by blast
  have r: "resolve (cwd p) [Some R, Some q] = Inr (posixResolve (cwd p) [R, q])"
    using resolve_strings [of "cwd p" "[R, q]"] by simp
  show ?thesis
    using assms b r by (cases b) (simp_all add: handleYTMDAppProtocol_def)
qed

section \<open>The claims of the specification\<close>

text \<open>
  Claim C1 says that the router never throws: the worst outcome of a request is the
  403 response.  The code does not do that.  When the host is none of the four known
  ones and the pathname does not start with the reserved assets prefix, \<open>rootPath\<close> is
  still \<^verbatim>\<open>undefined\<close> when \<^verbatim>\<open>isSafePath\<close> is called, and \<^verbatim>\<open>path.resolve\<close> (or
  \<^verbatim>\<open>path.relative\<close>) throws a \<^verbatim>\<open>TypeError\<close>: the handler fails instead of answering 403.
\<close>

theorem unknown_host_throws:
  "host \<notin> {''updater'', ''main'', ''titlebar'', ''settings''} \<Longrightarrow>
   assetsRegex (if pathname = ''/'' then ''/index.html'' else pathname) = None \<Longrightarrow>
   handleYTMDAppProtocol p host pathname = Inl TypeError"
  by (rule handle_undefined_root [of _ _ _ "stripSeps (if pathname = ''/'' then ''/index.html'' else pathname)"])
     (simp add: resolveRequest_def resolveDesired_def hostRoot_def)

text \<open>The premises hold for the host \<^verbatim>\<open>bogus\<close> and the pathname \<^verbatim>\<open>/index.html\<close>.\<close>

theorem unknown_host_throws_witness:
  "''bogus'' \<notin> {''updater'', ''main'', ''titlebar'', ''settings''}
   \<and> assetsRegex ''/index.html'' = None
   \<and> handleYTMDAppProtocol \<lparr>resourcesPath = ''/opt/app/resources'', cwd = ''/''\<rparr> ''bogus'' ''/index.html''
       = Inl TypeError"
  using unknown_host_throws [of "''bogus''" "''/index.html''" "\<lparr>resourcesPath = ''/opt/app/resources'', cwd = ''/''\<rparr>"]
  by (simp add: assetsRegex_index)

text \<open>
  Claim C2 at its own example: for the host \<^verbatim>\<open>bogus\<close> and the pathname
  \<^verbatim>\<open>/index.html\<close> the resolution yields no root, as the claim says, but the handler then
  throws the \<^verbatim>\<open>TypeError\<close> of \<^verbatim>\<open>path.resolve(undefined, "index.html")\<close> instead of
  returning the 403 response.
\<close>

theorem bogus_host_index_throws:
  "fst (resolveRequest p ''bogus'' ''/index.html'') = None
   \<and> handleYTMDAppProtocol p ''bogus'' ''/index.html'' = Inl TypeError"
proof -
  have "resolveRequest p ''bogus'' ''/index.html'' = (None, ''index.html'')"
    by (simp add: resolveRequest_def resolveDesired_def assetsRegex_index hostRoot_bogus
        stripSeps_def isSep_def)
  then show ?thesis
    by (simp add: handle_undefined_root)
qed

text \<open>
  Claim C3, as amended.  For an absolute root \<open>R\<close> the guard rejects
  \<^verbatim>\<open>../secret\<close> exactly when \<open>R\<close> does not resolve to the file-system root \<^verbatim>\<open>/\<close>, and it
  rejects \<^verbatim>\<open>../../etc/passwd\<close> and \<^verbatim>\<open>/etc/passwd\<close> exactly when \<open>R\<close> resolves neither
  to \<^verbatim>\<open>/\<close> nor to \<^verbatim>\<open>/etc\<close>.  In the excluded cases the candidate names a file inside
  the root, and the guard accepts it.
\<close>

theorem traversal_rejected_unless_root_contains:
  assumes "isAbsolute R"
  shows "isSafePath wd (Some R) ''../secret'' = Inr (posixResolve wd [R] = ''/'')
       \<and> isSafePath wd (Some R) ''../../etc/passwd''
           = Inr (posixResolve wd [R] = ''/'' \<or> posixResolve wd [R] = ''/etc'')
       \<and> isSafePath wd (Some R) ''/etc/passwd''
           = Inr (posixResolve wd [R] = ''/'' \<or> posixResolve wd [R] = ''/etc'')"
proof -
  have a: "isSafePath wd (Some R) ''../secret'' = Inr (posixResolve wd [R] = ''/'')"
    using isSafePath_abs [OF assms, of wd "''../secret''"] safe_secret [OF rootSegs_normal, of R]
    by (simp add: isAbsolute_def root_iff [OF assms])
  have b: "isSafePath wd (Some R) ''../../etc/passwd''
           = Inr (posixResolve wd [R] = ''/'' \<or> posixResolve wd [R] = ''/etc'')"
    using isSafePath_abs [OF assms, of wd "''../../etc/passwd''"] segs_up_up [OF rootSegs_normal, of R]
    by (simp add: isAbsolute_def root_iff [OF assms] etc_iff [OF assms])
  have "rootSegs ''/etc/passwd'' = [''etc'', ''passwd'']"
    by (simp add: rootSegs_def)
  then have c: "isSafePath wd (Some R) ''/etc/passwd''
           = Inr (posixResolve wd [R] = ''/'' \<or> posixResolve wd [R] = ''/etc'')"
    using isSafePath_abs [OF assms, of wd "''/etc/passwd''"] safe_under_etc [of "rootSegs R"]
    by (simp add: isAbsolute_def root_iff [OF assms] etc_iff [OF assms])
  show ?thesis using a b c by simp
qed

text \<open>An instance: the root \<^verbatim>\<open>/srv/app\<close> rejects all three candidates.\<close>

theorem traversal_witness:
  "isAbsolute ''/srv/app''
   \<and> isSafePath ''/home/u'' (Some ''/srv/app'') ''../secret'' = Inr False
   \<and> isSafePath ''/home/u'' (Some ''/srv/app'') ''../../etc/passwd'' = Inr False
   \<and> isSafePath ''/home/u'' (Some ''/srv/app'') ''/etc/passwd'' = Inr False"
proof -
  have a: "isAbsolute ''/srv/app''"
    by (simp add: isAbsolute_def)
  have "posixResolve ''/home/u'' [''/srv/app''] = ''/srv/app''"
    by (simp add: posixResolve_def resolve_def normalizeString_def isAbsolute_def)
  then show ?thesis
    using a traversal_rejected_unless_root_contains [OF a, of "''/home/u''"] by simp
qed

text \<open>
  Claim C3 as stated, for every absolute root, fails: under the root \<^verbatim>\<open>/\<close> the
  candidate \<^verbatim>\<open>../secret\<close> is accepted, and under the root \<^verbatim>\<open>/etc\<close> so are
  \<^verbatim>\<open>../../etc/passwd\<close> and \<^verbatim>\<open>/etc/passwd\<close>.
\<close>

theorem traversal_inside_root_accepted:
  "isAbsolute ''/'' \<and> isAbsolute ''/etc''
   \<and> isSafePath ''/home/u'' (Some ''/'') ''../secret'' = Inr True
   \<and> isSafePath ''/home/u'' (Some ''/etc'') ''../../etc/passwd'' = Inr True
   \<and> isSafePath ''/home/u'' (Some ''/etc'') ''/etc/passwd'' = Inr True"
  by (simp add: isSafePath_def resolve_def relative_def posixResolve_def normalizeString_def
      isAbsolute_def pathSegs_def startsWith_def)

text \<open>
  Claim C4.  For an absolute root \<open>R\<close> and every candidate \<open>c\<close>, \<^verbatim>\<open>isSafePath\<close>
  returns a truth value.  The resolved path is the normalised join of root and candidate
  (\<open>resolvedSegs\<close>), the relative path is the one from the normalised root to it
  (\<open>relOf\<close>), and the result is true exactly when that relative path is non-empty, does
  not begin with \<^verbatim>\<open>..\<close> and is not absolute.  That is the case exactly when the resolved
  path consists of the root's segments followed by at least one more, the first of which
  does not begin with \<^verbatim>\<open>..\<close>.  The candidates \<^verbatim>\<open>index.html\<close>, \<^verbatim>\<open>assets/app.js\<close> and
  \<^verbatim>\<open>a/../index.html\<close> are accepted under every absolute root; the empty candidate and
  \<^verbatim>\<open>a/..\<close>, which resolve to the root itself, are rejected.
\<close>

theorem guard_decision:
  assumes "isAbsolute R"
  shows "resolve wd [Some R, Some c] = Inr (CHR ''/'' # joinSegs (resolvedSegs R c))
       \<and> relative wd (Some R) (Some (CHR ''/'' # joinSegs (resolvedSegs R c)))
           = Inr (relOf (rootSegs R) (resolvedSegs R c))
       \<and> isSafePath wd (Some R) c
           = Inr (relOf (rootSegs R) (resolvedSegs R c) \<noteq> []
                  \<and> \<not> startsWith (relOf (rootSegs R) (resolvedSegs R c)) ''..''
                  \<and> \<not> isAbsolute (relOf (rootSegs R) (resolvedSegs R c)))
       \<and> (isSafePath wd (Some R) c = Inr True
            \<longleftrightarrow> (\<exists>ys. ys \<noteq> [] \<and> resolvedSegs R c = rootSegs R @ ys
                       \<and> \<not> startsWith (hd ys) ''..''))
       \<and> isSafePath wd (Some R) ''index.html'' = Inr True
       \<and> isSafePath wd (Some R) ''assets/app.js'' = Inr True
       \<and> isSafePath wd (Some R) [] = Inr False
       \<and> isSafePath wd (Some R) ''a/..'' = Inr False
       \<and> isSafePath wd (Some R) ''a/../index.html'' = Inr True"
proof -
  have r: "resolve wd [Some R, Some c] = Inr (CHR ''/'' # joinSegs (resolvedSegs R c))"
    using resolve_abs2 [OF assms, of wd c] by (simp add: resolvedSegs_def)
  have l: "relative wd (Some R) (Some (CHR ''/'' # joinSegs (resolvedSegs R c)))
             = Inr (relOf (rootSegs R) (resolvedSegs R c))"
    using assms resolvedSegs_normal by (rule relative_abs)
  have s: "isSafePath wd (Some R) c = Inr (safeRel (relOf (rootSegs R) (resolvedSegs R c)))"
    using isSafePath_abs [OF assms, of wd c] by (simp add: resolvedSegs_def)
  have p: "isSafePath wd (Some R) c = Inr True
            \<longleftrightarrow> (\<exists>ys. ys \<noteq> [] \<and> resolvedSegs R c = rootSegs R @ ys
                       \<and> \<not> startsWith (hd ys) ''..'')"
    using safeRel_relOf [OF resolvedSegs_normal [of R c], of "rootSegs R"] by (simp add: s)
  have d: "isSafePath wd (Some R) ''a/..'' = Inr False"
    using isSafePath_abs [OF assms, of wd "''a/..''"]
    by (simp add: isAbsolute_def relOf_self safeRel_def)
  have e: "isSafePath wd (Some R) ''a/../index.html'' = Inr True"
    using isSafePath_abs [OF assms, of wd "''a/../index.html''"]
    by (simp add: isAbsolute_def relOf_prefix safeRel_def startsWith_def)
  show ?thesis
    using r l s p d e isSafePath_index [OF assms, of wd] isSafePath_assets_app [OF assms, of wd]
      isSafePath_empty [OF assms, of wd]
    by (simp add: safeRel_def)
qed

text \<open>An instance: the root \<^verbatim>\<open>/srv/app\<close>, with a nested candidate that is accepted and a
  candidate that climbs out of the root and is rejected.\<close>

theorem guard_decision_witness:
  "isAbsolute ''/srv/app''
   \<and> resolve ''/home/u'' [Some ''/srv/app'', Some ''a/b/c.js''] = Inr ''/srv/app/a/b/c.js''
   \<and> relative ''/home/u'' (Some ''/srv/app'') (Some ''/srv/app/a/b/c.js'') = Inr ''a/b/c.js''
   \<and> isSafePath ''/home/u'' (Some ''/srv/app'') ''a/b/c.js'' = Inr True
   \<and> resolve ''/home/u'' [Some ''/srv/app'', Some ''a/../../../etc/passwd''] = Inr ''/etc/passwd''
   \<and> relative ''/home/u'' (Some ''/srv/app'') (Some ''/etc/passwd'') = Inr ''../../etc/passwd''
   \<and> isSafePath ''/home/u'' (Some ''/srv/app'') ''a/../../../etc/passwd'' = Inr False
   \<and> isSafePath ''/home/u'' (Some ''/srv/app'') ''index.html'' = Inr True
   \<and> isSafePath ''/home/u'' (Some ''/srv/app'') ''assets/app.js'' = Inr True
   \<and> isSafePath ''/home/u'' (Some ''/srv/app'') [] = Inr False"
proof -
  have a: "isAbsolute ''/srv/app''"
    by (simp add: isAbsolute_def)
  have f: "rootSegs ''/srv/app'' = [''srv'', ''app'']"
    by (simp add: rootSegs_def)
  have s1: "resolvedSegs ''/srv/app'' ''a/b/c.js'' = [''srv'', ''app'', ''a'', ''b'', ''c.js'']"
    by (simp add: resolvedSegs_def f isAbsolute_def)
  have s2: "resolvedSegs ''/srv/app'' ''a/../../../etc/passwd'' = [''etc'', ''passwd'']"
    by (simp add: resolvedSegs_def f isAbsolute_def)
  have r1: "relOf [''srv'', ''app''] [''srv'', ''app'', ''a'', ''b'', ''c.js''] = ''a/b/c.js''"
    by (simp add: relOf_def)
  have r2: "relOf [''srv'', ''app''] [''etc'', ''passwd''] = ''../../etc/passwd''"
    by (simp add: relOf_def)
  note t1 = guard_decision [OF a, of "''/home/u''" "''a/b/c.js''"]
  note t2 = guard_decision [OF a, of "''/home/u''" "''a/../../../etc/passwd''"]
  show ?thesis
    using a t1 t2 by (simp add: f s1 s2 r1 r2 startsWith_def isAbsolute_def)
qed

text \<open>
  Claim C5.  When the pathname matches the reserved assets prefix, the request is
  resolved against the shared assets directory whatever the host is, known or not, and
  the handler's answer is the guard's decision on that directory: the file fetch when
  the guard accepts, the 403 response when it rejects; the \<^verbatim>\<open>TypeError\<close> of an unknown
  host never occurs.  So \<^verbatim>\<open>/assets/x.js\<close> is fetched from the assets directory under
  every host, when \<^verbatim>\<open>process.resourcesPath\<close> is absolute.
\<close>

theorem assets_prefix_any_host:
  "(assetsRegex pathname = Some rest \<longrightarrow>
      resolveRequest p host pathname = (Some (assetsRoot p), stripSeps rest)
      \<and> handleYTMDAppProtocol p host pathname =
          (if isSafePath (cwd p) (Some (assetsRoot p)) (stripSeps rest) = Inr True
           then Inr (NetFetch (posixResolve (cwd p) [assetsRoot p, stripSeps rest]))
           else Inr (Response \<lparr>body = ''Policy Violation'', status = 403,
                              headers = [(''Content-Type'', ''text/html'')]\<rparr>)))
   \<and> (isAbsolute (resourcesPath p) \<longrightarrow>
        handleYTMDAppProtocol p host ''/assets/x.js'' = Inr (NetFetch (assetsRoot p @ ''/x.js'')))"
proof (intro conjI impI)
  assume m: "assetsRegex pathname = Some rest"
  have "assetsRegex ''/'' = None"
    by (simp add: assetsRegex_def isSep_def assetsGroup_def)
  then have "pathname \<noteq> ''/''"
    using m by auto
  then show r: "resolveRequest p host pathname = (Some (assetsRoot p), stripSeps rest)"
    using m by (simp add: resolveRequest_def resolveDesired_def)
  show "handleYTMDAppProtocol p host pathname =
          (if isSafePath (cwd p) (Some (assetsRoot p)) (stripSeps rest) = Inr True
           then Inr (NetFetch (posixResolve (cwd p) [assetsRoot p, stripSeps rest]))
           else Inr (Response \<lparr>body = ''Policy Violation'', status = 403,
                              headers = [(''Content-Type'', ''text/html'')]\<rparr>))"
    using r by (rule handle_defined_root)
next
  assume a: "isAbsolute (resourcesPath p)"
  have r: "resolveRequest p host ''/assets/x.js'' = (Some (assetsRoot p), ''x.js'')"
    by (simp add: resolveRequest_def resolveDesired_def assetsRegex_x stripSeps_def isSep_def)
  have sub: "\<forall>s\<in>set (splitOn CHR ''/'' ''app.asar/.vite/renderer/assets''). normalSeg s"
    by (simp add: normalSeg_def)
  have c: "\<forall>s\<in>set (splitOn CHR ''/'' ''x.js''). normalSeg s"
    by (simp add: normalSeg_def)
  have up: "\<not> startsWith ''x.js'' ''..''"
    by (simp add: startsWith_def)
  show "handleYTMDAppProtocol p host ''/assets/x.js'' = Inr (NetFetch (assetsRoot p @ ''/x.js''))"
    using handle_defined_root [OF r] served_under_root(2,3) [OF a sub c up, of "cwd p"]
    by (simp add: assetsRoot_def)
qed

text \<open>An instance: the unknown host \<^verbatim>\<open>bogus\<close> and the pathname \<^verbatim>\<open>/assets/x.js\<close>.\<close>

theorem assets_prefix_any_host_witness:
  "assetsRegex ''/assets/x.js'' = Some ''x.js''
   \<and> isAbsolute (resourcesPath \<lparr>resourcesPath = ''/opt/app/resources'', cwd = ''/''\<rparr>)
   \<and> resolveRequest \<lparr>resourcesPath = ''/opt/app/resources'', cwd = ''/''\<rparr> ''bogus'' ''/assets/x.js''
       = (Some ''/opt/app/resources/app.asar/.vite/renderer/assets'', ''x.js'')
   \<and> handleYTMDAppProtocol \<lparr>resourcesPath = ''/opt/app/resources'', cwd = ''/''\<rparr> ''bogus'' ''/assets/x.js''
       = Inr (NetFetch ''/opt/app/resources/app.asar/.vite/renderer/assets/x.js'')"
proof -
  let ?p = "\<lparr>resourcesPath = ''/opt/app/resources'', cwd = ''/''\<rparr>"
  have a: "isAbsolute (resourcesPath ?p)"
    by (simp add: isAbsolute_def)
  have r: "assetsRoot ?p = ''/opt/app/resources/app.asar/.vite/renderer/assets''"
    by (simp add: assetsRoot_def posixResolve_def resolve_def normalizeString_def isAbsolute_def)
  have s: "stripSeps ''x.js'' = ''x.js''"
    by (simp add: stripSeps_def isSep_def)
  note t = assets_prefix_any_host [of "''/assets/x.js''" "''x.js''" ?p "''bogus''"]
  have r1: "resolveRequest ?p ''bogus'' ''/assets/x.js'' = (Some (assetsRoot ?p), stripSeps ''x.js'')"
    using t assetsRegex_x by blast
  have h: "handleYTMDAppProtocol ?p ''bogus'' ''/assets/x.js'' = Inr (NetFetch (assetsRoot ?p @ ''/x.js''))"
    using t a by blast
  show ?thesis
    using a assetsRegex_x r1 h by (simp add: r s)
qed

text \<open>
  Claim C6.  For a request with one of the four known hosts, when the guard rejects the
  resolved pair of root and path, the handler returns the response with status 403,
  the header \<^verbatim>\<open>Content-Type: text/html\<close> and the body \<^verbatim>\<open>Policy Violation\<close>; it does not
  reach \<^verbatim>\<open>net.fetch\<close>.
\<close>

theorem guard_rejection_is_403:
  "host \<in> {''updater'', ''main'', ''titlebar'', ''settings''} \<Longrightarrow>
   resolveRequest p host pathname = (rootPath, desiredPath) \<Longrightarrow>
   isSafePath (cwd p) rootPath desiredPath = Inr False \<Longrightarrow>
   handleYTMDAppProtocol p host pathname
     = Inr (Response \<lparr>body = ''Policy Violation'', status = 403,
                      headers = [(''Content-Type'', ''text/html'')]\<rparr>)"
  by (simp add: handleYTMDAppProtocol_def)

text \<open>An instance: the host \<^verbatim>\<open>main\<close> and the pathname \<^verbatim>\<open>/../secret\<close>.\<close>

theorem guard_rejection_is_403_witness:
  "''main'' \<in> {''updater'', ''main'', ''titlebar'', ''settings''}
   \<and> resolveRequest \<lparr>resourcesPath = ''/opt/app/resources'', cwd = ''/''\<rparr> ''main'' ''/../secret''
       = (Some ''/opt/app/resources/app.asar/.vite/renderer/windows/main'', ''../secret'')
   \<and> isSafePath ''/'' (Some ''/opt/app/resources/app.asar/.vite/renderer/windows/main'') ''../secret''
       = Inr False
   \<and> handleYTMDAppProtocol \<lparr>resourcesPath = ''/opt/app/resources'', cwd = ''/''\<rparr> ''main'' ''/../secret''
       = Inr (Response \<lparr>body = ''Policy Violation'', status = 403,
                        headers = [(''Content-Type'', ''text/html'')]\<rparr>)"
proof -
  let ?p = "\<lparr>resourcesPath = ''/opt/app/resources'', cwd = ''/''\<rparr>"
  let ?root = "''/opt/app/resources/app.asar/.vite/renderer/windows/main''"
  have h: "''main'' \<in> {''updater'', ''main'', ''titlebar'', ''settings''}"
    by simp
  have m: "assetsRegex ''/../secret'' = None"
    by (simp add: assetsRegex_def isSep_def assetsGroup_def)
  have r: "resolveRequest ?p ''main'' ''/../secret'' = (Some ?root, ''../secret'')"
    by (simp add: resolveRequest_def resolveDesired_def m hostRoot_def stripSeps_def isSep_def
        posixResolve_def resolve_def normalizeString_def isAbsolute_def)
  have a: "isAbsolute ?root"
    by (simp add: isAbsolute_def)
  have "posixResolve ''/'' [?root] = ?root"
    by (simp add: posixResolve_def resolve_def normalizeString_def isAbsolute_def)
  then have g: "isSafePath (cwd ?p) (Some ?root) ''../secret'' = Inr False"
    using isSafePath_abs [OF a, of "''/''" "''../secret''"] safe_secret [OF rootSegs_normal, of ?root]
      root_iff [OF a, of "''/''"]
    by (simp add: isAbsolute_def)
  show ?thesis
    using guard_rejection_is_403 [OF h r g] r g by simp
qed

text \<open>
  Claim C7.  For the host \<^verbatim>\<open>main\<close>, the pathnames \<^verbatim>\<open>/assets/assets/x.js\<close> and
  \<^verbatim>\<open>/assets/x.js\<close> resolve to the same pair: the shared assets directory and the path
  \<^verbatim>\<open>x.js\<close>.
\<close>

theorem assets_rewrite_repeats:
  "resolveRequest p ''main'' ''/assets/assets/x.js'' = (Some (assetsRoot p), ''x.js'')
   \<and> resolveRequest p ''main'' ''/assets/x.js'' = (Some (assetsRoot p), ''x.js'')"
  by (simp add: resolveRequest_def resolveDesired_def assetsRegex_x assetsRegex_xx stripSeps_def isSep_def)

text \<open>
  Claim C8.  With the view manager initialized and ready, the deep link
  \<^verbatim>\<open>ytmd://play/abc123/def456\<close> sends exactly one message, with the video
  \<^verbatim>\<open>abc123\<close> and the playlist \<^verbatim>\<open>def456\<close>, and the deep link \<^verbatim>\<open>ytmd://play/abc123\<close>
  sends exactly one message, with the video \<^verbatim>\<open>abc123\<close> and no playlist.
\<close>

theorem play_link_sends:
  "handleYTMDProtocol \<lparr>isInitialized = True, readyResolves = True\<rparr> ''ytmd://play/abc123/def456''
     = Some [\<lparr>channel = ''remoteControl:execute'', command = ''navigate'',
              videoId = ''abc123'', playlistId = Some ''def456''\<rparr>]
   \<and> handleYTMDProtocol \<lparr>isInitialized = True, readyResolves = True\<rparr> ''ytmd://play/abc123''
     = Some [\<lparr>channel = ''remoteControl:execute'', command = ''navigate'',
              videoId = ''abc123'', playlistId = None\<rparr>]"
  by (simp add: handleYTMDProtocol_def split_def at_def)

text \<open>
  Claim C9, as amended.  The dispatcher sends a command exactly when the URI is a play
  link (\<open>playLink\<close>), the view manager reports initialized, and the wait for
  \<^verbatim>\<open>ready()\<close> comes to an end.  It completes without sending anything exactly when the
  URI is not a play link or the view manager is not initialized.  When the URI is a play
  link and the view manager is initialized but never ready, the handler stays suspended:
  it sends nothing and never completes.  No case raises an error.
\<close>

theorem dispatch_cases:
  "((\<exists>c. handleYTMDProtocol vm url = Some [c])
      \<longleftrightarrow> playLink url \<and> isInitialized vm \<and> readyResolves vm)
   \<and> (handleYTMDProtocol vm url = Some [] \<longleftrightarrow> \<not> (playLink url \<and> isInitialized vm))
   \<and> (handleYTMDProtocol vm url = None
      \<longleftrightarrow> playLink url \<and> isInitialized vm \<and> \<not> readyResolves vm)"
  by (auto simp: handleYTMDProtocol_def playLink_def at_def Let_def split: option.splits)

text \<open>Instances: a play link, a link with another verb, and a view manager that is not initialized.\<close>

theorem dispatch_cases_witness:
  "playLink ''ytmd://play/abc123''
   \<and> handleYTMDProtocol \<lparr>isInitialized = True, readyResolves = True\<rparr> ''ytmd://play/abc123'' \<noteq> Some []
   \<and> handleYTMDProtocol \<lparr>isInitialized = True, readyResolves = True\<rparr> ''ytmd://play/abc123'' \<noteq> None
   \<and> \<not> playLink ''ytmd://pause/abc123''
   \<and> handleYTMDProtocol \<lparr>isInitialized = True, readyResolves = True\<rparr> ''ytmd://pause/abc123'' = Some []
   \<and> handleYTMDProtocol \<lparr>isInitialized = False, readyResolves = True\<rparr> ''ytmd://play/abc123'' = Some []"
proof -
  have p: "playLink ''ytmd://play/abc123''"
    by (simp add: playLink_def split_def at_def)
  have q: "\<not> playLink ''ytmd://pause/abc123''"
    by (simp add: playLink_def split_def at_def)
  show ?thesis
    using p q
      dispatch_cases [of "\<lparr>isInitialized = True, readyResolves = True\<rparr>" "''ytmd://play/abc123''"]
      dispatch_cases [of "\<lparr>isInitialized = True, readyResolves = True\<rparr>" "''ytmd://pause/abc123''"]
      dispatch_cases [of "\<lparr>isInitialized = False, readyResolves = True\<rparr>" "''ytmd://play/abc123''"]
    by simp
qed

text \<open>
  Claim C9 as stated fails for a view manager that is initialized and never ready:
  the URI is a play link, and no command is sent.
\<close>

theorem dispatch_never_ready:
  "playLink ''ytmd://play/abc123''
   \<and> isInitialized \<lparr>isInitialized = True, readyResolves = False\<rparr>
   \<and> handleYTMDProtocol \<lparr>isInitialized = True, readyResolves = False\<rparr> ''ytmd://play/abc123'' = None"
  by (simp add: handleYTMDProtocol_def playLink_def split_def at_def)

text \<open>
  Claim C10.  For the host \<^verbatim>\<open>settings\<close> and the pathname \<^verbatim>\<open>/\<close>, the resolution yields
  the settings directory and the path \<^verbatim>\<open>index.html\<close>, and the handler fetches the file
  \<^verbatim>\<open>index.html\<close> directly under that directory (when \<^verbatim>\<open>process.resourcesPath\<close> is
  absolute).  For every pathname other than \<^verbatim>\<open>/\<close> the resolution works on the pathname
  itself: no index document is substituted.
\<close>

theorem index_default:
  "resolveRequest p ''settings'' ''/''
     = (Some (posixResolve (cwd p) [resourcesPath p, ''app.asar/.vite/renderer/windows/settings'']),
        ''index.html'')
   \<and> (isAbsolute (resourcesPath p) \<longrightarrow>
        handleYTMDAppProtocol p ''settings'' ''/''
          = Inr (NetFetch (posixResolve (cwd p)
                     [resourcesPath p, ''app.asar/.vite/renderer/windows/settings''] @ ''/index.html'')))
   \<and> (pathname \<noteq> ''/'' \<longrightarrow>
        resolveRequest p host pathname = resolveDesired p (hostRoot p host) pathname)"
proof (intro conjI impI)
  show r: "resolveRequest p ''settings'' ''/''
     = (Some (posixResolve (cwd p) [resourcesPath p, ''app.asar/.vite/renderer/windows/settings'']),
        ''index.html'')"
    by (simp add: resolveRequest_def resolveDesired_def assetsRegex_index hostRoot_def
        stripSeps_def isSep_def)
  assume a: "isAbsolute (resourcesPath p)"
  have sub: "\<forall>s\<in>set (splitOn CHR ''/'' ''app.asar/.vite/renderer/windows/settings''). normalSeg s"
    by (simp add: normalSeg_def)
  have c: "\<forall>s\<in>set (splitOn CHR ''/'' ''index.html''). normalSeg s"
    by (simp add: normalSeg_def)
  have up: "\<not> startsWith ''index.html'' ''..''"
    by (simp add: startsWith_def)
  show "handleYTMDAppProtocol p ''settings'' ''/''
          = Inr (NetFetch (posixResolve (cwd p)
                     [resourcesPath p, ''app.asar/.vite/renderer/windows/settings''] @ ''/index.html''))"
    using handle_defined_root [OF r] served_under_root(2,3) [OF a sub c up, of "cwd p"]
    by simp
next
  assume "pathname \<noteq> ''/''"
  then show "resolveRequest p host pathname = resolveDesired p (hostRoot p host) pathname"
    by (simp add: resolveRequest_def)
qed

text \<open>An instance: the pathnames \<^verbatim>\<open>/\<close> and \<^verbatim>\<open>/about.html\<close> for the host \<^verbatim>\<open>settings\<close>.\<close>

theorem index_default_witness:
  "isAbsolute (resourcesPath \<lparr>resourcesPath = ''/opt/app/resources'', cwd = ''/''\<rparr>)
   \<and> handleYTMDAppProtocol \<lparr>resourcesPath = ''/opt/app/resources'', cwd = ''/''\<rparr> ''settings'' ''/''
       = Inr (NetFetch ''/opt/app/resources/app.asar/.vite/renderer/windows/settings/index.html'')
   \<and> ''/about.html'' \<noteq> ''/''
   \<and> resolveRequest \<lparr>resourcesPath = ''/opt/app/resources'', cwd = ''/''\<rparr> ''settings'' ''/about.html''
       = (Some ''/opt/app/resources/app.asar/.vite/renderer/windows/settings'', ''about.html'')"
proof -
  let ?p = "\<lparr>resourcesPath = ''/opt/app/resources'', cwd = ''/''\<rparr>"
  have a: "isAbsolute (resourcesPath ?p)"
    by (simp add: isAbsolute_def)
  have r: "posixResolve (cwd ?p) [resourcesPath ?p, ''app.asar/.vite/renderer/windows/settings'']
             = ''/opt/app/resources/app.asar/.vite/renderer/windows/settings''"
    by (simp add: posixResolve_def resolve_def normalizeString_def isAbsolute_def)
  have m: "assetsRegex ''/about.html'' = None"
    by (simp add: assetsRegex_def isSep_def assetsGroup_def)
  have d: "resolveDesired ?p (hostRoot ?p ''settings'') ''/about.html''
             = (Some ''/opt/app/resources/app.asar/.vite/renderer/windows/settings'', ''about.html'')"
    using r by (simp add: resolveDesired_def m hostRoot_def stripSeps_def isSep_def)
  have n: "''/about.html'' \<noteq> ''/''"
    by simp
  show ?thesis
    using index_default [of ?p "''/about.html''" "''settings''"] a n
    by (simp only: r d) simp
qed

end
